theory Spec2Isabelle
  imports Main "HOL-Library.Word"
begin

unbundle bit_operations_syntax

section \<open>zipCheck: the data model\<close>

type_synonym byte = "8 word"

text \<open>
  The enumeration \<open>ErrorCode\<close> of \<open>zipCheck.cpp\<close>. The C++ declaration gives only the
  first enumerator a value (\<open>OK = 0\<close>); every later enumerator is its predecessor plus
  one. \<open>ErrorCode_enumerators\<close> is the declaration in source order and
  \<open>errorCodeValue\<close> the resulting integral value (the position in the declaration).
\<close>

datatype ErrorCode =
    OK
  | ERR_ARGUMENTS
  | ERR_FILE_OPEN
  | ERR_MAGIC_NUMBER
  | ERR_HEADER_SIGNATURE
  | ERR_HEADER_READ
  | ERR_HEADER_SIGNATURE_READ
  | ERR_HEADER_VERSION_NEEDED_READ
  | ERR_HEADER_FLAGS_READ
  | ERR_HEADER_COMPRESSION_METHOD_READ
  | ERR_HEADER_LAST_MOD_TIME_READ
  | ERR_HEADER_MOD_DATE_READ
  | ERR_HEADER_CRC32_READ
  | ERR_HEADER_COMPRESSED_SIZE_READ
  | ERR_HEADER_UNCOMPRESSED_SIZE_READ
  | ERR_HEADER_FILENAME_LENGTH_READ
  | ERR_HEADER_EXTRA_FIELD_LENGTH_READ
  | ERR_READ_FAIL

definition ErrorCode_enumerators :: "ErrorCode list" where
  "ErrorCode_enumerators =
     [OK, ERR_ARGUMENTS, ERR_FILE_OPEN, ERR_MAGIC_NUMBER, ERR_HEADER_SIGNATURE,
      ERR_HEADER_READ, ERR_HEADER_SIGNATURE_READ, ERR_HEADER_VERSION_NEEDED_READ,
      ERR_HEADER_FLAGS_READ, ERR_HEADER_COMPRESSION_METHOD_READ,
      ERR_HEADER_LAST_MOD_TIME_READ, ERR_HEADER_MOD_DATE_READ, ERR_HEADER_CRC32_READ,
      ERR_HEADER_COMPRESSED_SIZE_READ, ERR_HEADER_UNCOMPRESSED_SIZE_READ,
      ERR_HEADER_FILENAME_LENGTH_READ, ERR_HEADER_EXTRA_FIELD_LENGTH_READ, ERR_READ_FAIL]"

definition errorCodeValue :: "ErrorCode \<Rightarrow> int" where
  "errorCodeValue c = 0 + int (length (takeWhile (\<lambda>e. e \<noteq> c) ErrorCode_enumerators))"

text \<open>The constant \<open>PK_SIGNATURE\<close>, compared against the unsigned 32-bit field.\<close>

definition PK_SIGNATURE :: "32 word" where
  "PK_SIGNATURE = 0x04034b50"

record ZipLocalFileHeader =
  signature :: "32 word"
  versionNeeded :: "16 word"
  flags :: "16 word"
  compressionMethod :: "16 word"
  lastModTime :: "16 word"
  lastModDate :: "16 word"
  crc32 :: "32 word"
  compressedSize :: "32 word"
  uncompressedSize :: "32 word"
  fileNameLength :: "16 word"
  extraFieldLength :: "16 word"

section \<open>The CRC-32 engine\<close>

text \<open>
  The inner loop of \<open>generateCrc32Table\<close>: \<open>j\<close> counts down from 8 to 1, each round
  shifts \<open>crc\<close> right by one bit and XORs the polynomial in when the bit shifted out
  was set.
\<close>

definition polynomial :: "32 word" where
  "polynomial = 0xedb88320"

fun crcBits :: "nat \<Rightarrow> 32 word \<Rightarrow> 32 word" where
  "crcBits 0 crc = crc"
| "crcBits (Suc j) crc =
     crcBits j (if crc AND 1 \<noteq> 0 then drop_bit 1 crc XOR polynomial else drop_bit 1 crc)"

text \<open>
  The outer loop writes \<open>crc32Table[i]\<close> for \<open>i = 0 .. 255\<close>. The counter is a
  \<open>uint32_t\<close> that never exceeds 256, so it is a \<open>nat\<close> here and \<open>of_nat i\<close> is the
  initial \<open>crc = i\<close>. The table is the global array, passed in and returned.
\<close>

function generateCrc32Table_loop :: "nat \<Rightarrow> 32 word list \<Rightarrow> 32 word list" where
  "generateCrc32Table_loop i crc32Table =
     (if i < 256
      then generateCrc32Table_loop (i + 1) (crc32Table[i := crcBits 8 (of_nat i)])
      else crc32Table)"
  by pat_completeness auto
termination
  by (relation "measure (\<lambda>(i, t). 256 - i)") auto

declare generateCrc32Table_loop.simps [simp del]

definition generateCrc32Table :: "32 word list \<Rightarrow> 32 word list" where
  "generateCrc32Table crc32Table = generateCrc32Table_loop 0 crc32Table"

text \<open>The static array \<open>crc32Table[256]\<close> before \<open>main\<close> runs: zero-initialised.\<close>

definition crc32Table_static :: "32 word list" where
  "crc32Table_static = replicate 256 0"

text \<open>
  \<open>computeCrc32\<close>: the loop over \<open>data[0 .. length - 1]\<close> is a recursion over the byte
  list; \<open>tableIndex\<close> is the \<open>uint8_t\<close> cast of \<open>(crcValue & 0xff) ^ data[i]\<close>, which
  is always inside the 256-entry table.
\<close>

fun computeCrc32_loop :: "32 word list \<Rightarrow> 32 word \<Rightarrow> byte list \<Rightarrow> 32 word" where
  "computeCrc32_loop crc32Table crcValue [] = crcValue"
| "computeCrc32_loop crc32Table crcValue (d # data) =
     (let tableIndex = (ucast ((crcValue AND 0xff) XOR ucast d) :: byte)
      in computeCrc32_loop crc32Table
           ((crc32Table ! unat tableIndex) XOR drop_bit 8 crcValue) data)"

definition computeCrc32 :: "32 word list \<Rightarrow> byte list \<Rightarrow> 32 word" where
  "computeCrc32 crc32Table data = NOT (computeCrc32_loop crc32Table 0xffffffff data)"

section \<open>Diagnostic strings\<close>

text \<open>
  \<open>errorCodeToString\<close>: one case per enumerator. The \<open>default\<close> branch
  (\<open>UNKNOWN_ERROR\<close>) is for integers that are no enumerator; no value of the datatype
  reaches it.
\<close>

fun errorCodeToString :: "ErrorCode \<Rightarrow> string" where
  "errorCodeToString OK = ''OK''"
| "errorCodeToString ERR_ARGUMENTS = ''ERR_ARGUMENTS''"
| "errorCodeToString ERR_FILE_OPEN = ''ERR_FILE_OPEN''"
| "errorCodeToString ERR_MAGIC_NUMBER = ''ERR_MAGIC_NUMBER''"
| "errorCodeToString ERR_HEADER_SIGNATURE = ''ERR_HEADER_SIGNATURE''"
| "errorCodeToString ERR_HEADER_READ = ''ERR_HEADER_READ''"
| "errorCodeToString ERR_HEADER_SIGNATURE_READ = ''ERR_HEADER_SIGNATURE_READ''"
| "errorCodeToString ERR_HEADER_VERSION_NEEDED_READ = ''ERR_HEADER_VERSION_NEEDED_READ''"
| "errorCodeToString ERR_HEADER_FLAGS_READ = ''ERR_HEADER_FLAGS_READ''"
| "errorCodeToString ERR_HEADER_COMPRESSION_METHOD_READ =
     ''ERR_HEADER_COMPRESSION_METHOD_READ''"
| "errorCodeToString ERR_HEADER_LAST_MOD_TIME_READ = ''ERR_HEADER_LAST_MOD_TIME_READ''"
| "errorCodeToString ERR_HEADER_MOD_DATE_READ = ''ERR_HEADER_MOD_DATE_READ''"
| "errorCodeToString ERR_HEADER_CRC32_READ = ''ERR_HEADER_CRC32_READ''"
| "errorCodeToString ERR_HEADER_COMPRESSED_SIZE_READ = ''ERR_HEADER_COMPRESSED_SIZE_READ''"
| "errorCodeToString ERR_HEADER_UNCOMPRESSED_SIZE_READ =
     ''ERR_HEADER_UNCOMPRESSED_SIZE_READ''"
| "errorCodeToString ERR_HEADER_FILENAME_LENGTH_READ = ''ERR_HEADER_FILENAME_LENGTH_READ''"
| "errorCodeToString ERR_HEADER_EXTRA_FIELD_LENGTH_READ =
     ''ERR_HEADER_EXTRA_FIELD_LENGTH_READ''"
| "errorCodeToString ERR_READ_FAIL = ''ERR_READ_FAIL''"

definition compressionMethodToString :: "16 word \<Rightarrow> string" where
  "compressionMethodToString method =
     (if method = 0 then ''no compression''
      else if method = 1 then ''shrunk''
      else if method = 2 then ''reduced with compression factor 1''
      else if method = 3 then ''reduced with compression factor 2''
      else if method = 4 then ''reduced with compression factor 3''
      else if method = 5 then ''reduced with compression factor 4''
      else if method = 6 then ''imploded''
      else if method = 7 then ''reserved''
      else if method = 8 then ''deflated''
      else if method = 9 then ''enhanced deflated''
      else if method = 10 then ''PKWare DCL imploded''
      else if method = 11 then ''reserved''
      else if method = 12 then ''compressed using BZIP2''
      else if method = 13 then ''reserved''
      else if method = 14 then ''LZMA''
      else if method = 15 \<or> method = 16 \<or> method = 17 then ''reserved''
      else if method = 18 then ''compressed using IBM TERSE''
      else if method = 19 then ''IBM LZ77 z''
      else if method = 98 then ''PPMd version I, Rev 1''
      else ''unknown'')"

section \<open>The byte source\<close>

text \<open>
  \<open>std::ifstream\<close> as the program uses it: the bytes of the file, the get position
  and the fail bit (the only state bit the program tests, through \<open>operator!\<close>).

  \<open>read f n\<close> is \<open>file.read(p, n)\<close>: on a stream that has already failed nothing is
  extracted; otherwise up to \<open>n\<close> bytes are extracted and stored at \<open>p\<close>, and the fail
  bit is set when the end of the data comes before the \<open>n\<close>-th byte. The first
  component is the bytes stored.
\<close>

record ifstream =
  contents :: "byte list"
  gpos :: nat
  failbit :: bool

definition read :: "ifstream \<Rightarrow> nat \<Rightarrow> byte list \<times> ifstream" where
  "read f n =
     (if failbit f then ([], f)
      else if gpos f + n \<le> length (contents f)
      then (take n (drop (gpos f) (contents f)), f\<lparr>gpos := gpos f + n\<rparr>)
      else (drop (gpos f) (contents f), f\<lparr>gpos := length (contents f), failbit := True\<rparr>))"

text \<open>
  Modelled from the spec: the seek of the byte source, which is the C++ library's and
  not in the repository. The spec's interface section requires a seek by M bytes
  that returns success or failure, where "seeking past end-of-data is a failure, not
  silently clamped". The offset is a signed \<open>streamoff\<close>; a target before the start
  fails too. A seek on a failed stream does nothing. \<open>seekg_beg f off\<close> is
  \<open>file.seekg(off, std::ios::beg)\<close>.
\<close>

definition seekg_beg :: "ifstream \<Rightarrow> int \<Rightarrow> ifstream" where
  "seekg_beg f off =
     (if failbit f then f
      else if 0 \<le> off \<and> off \<le> int (length (contents f))
      then f\<lparr>gpos := nat off\<rparr>
      else f\<lparr>failbit := True\<rparr>)"

text \<open>
  Modelled from the spec: the relative seek, under the same contract. \<open>seekg_cur f off\<close>
  is \<open>file.seekg(off, std::ios::cur)\<close>; it fails, setting the fail bit and leaving
  the position, when fewer than \<open>off\<close> bytes remain after the current position.
\<close>

definition seekg_cur :: "ifstream \<Rightarrow> int \<Rightarrow> ifstream" where
  "seekg_cur f off =
     (if failbit f then f
      else if 0 \<le> int (gpos f) + off \<and> int (gpos f) + off \<le> int (length (contents f))
      then f\<lparr>gpos := nat (int (gpos f) + off)\<rparr>
      else f\<lparr>failbit := True\<rparr>)"

text \<open>
  \<open>reinterpret_cast<char*>(&field)\<close>: a read stores the extracted bytes over the
  field's bytes, lowest address first. On the little-endian hosts the program is
  written for (the spec fixes little-endian decoding) the lowest address is the
  least significant byte. A short read overwrites only the first bytes of the field.
\<close>

definition le_bytes :: "'a::len word \<Rightarrow> byte list" where
  "le_bytes w = map (\<lambda>i. ucast (drop_bit (8 * i) w)) [0..<LENGTH('a) div 8]"

definition of_le_bytes :: "byte list \<Rightarrow> 'a::len word" where
  "of_le_bytes bs = foldr (\<lambda>b w. ucast b OR push_bit 8 w) bs 0"

definition store :: "byte list \<Rightarrow> 'a::len word \<Rightarrow> 'a word" where
  "store cs old = of_le_bytes (cs @ drop (length cs) (le_bytes old))"

section \<open>The header validator\<close>

text \<open>
  \<open>readLocalFileHeader\<close>: eleven reads in sequence, each with its own early return;
  the label of the compression method goes to standard output (one line) right after
  the fourth read. The header is the reference parameter, returned as it is left.
\<close>

definition readLocalFileHeader ::
  "ifstream \<Rightarrow> ZipLocalFileHeader \<Rightarrow> string list
     \<Rightarrow> ErrorCode \<times> ifstream \<times> ZipLocalFileHeader \<times> string list" where
  "readLocalFileHeader file0 header0 cout0 =
    (let (cs, file) = read file0 4;
         header = header0\<lparr>signature := store cs (signature header0)\<rparr> in
     if failbit file then (ERR_HEADER_SIGNATURE_READ, file, header, cout0) else
     let (cs, file) = read file 2;
         header = header\<lparr>versionNeeded := store cs (versionNeeded header)\<rparr> in
     if failbit file then (ERR_HEADER_VERSION_NEEDED_READ, file, header, cout0) else
     let (cs, file) = read file 2;
         header = header\<lparr>flags := store cs (flags header)\<rparr> in
     if failbit file then (ERR_HEADER_FLAGS_READ, file, header, cout0) else
     let (cs, file) = read file 2;
         header = header\<lparr>compressionMethod := store cs (compressionMethod header)\<rparr> in
     if failbit file then (ERR_HEADER_COMPRESSION_METHOD_READ, file, header, cout0) else
     let cout = cout0 @ [compressionMethodToString (compressionMethod header)];
         (cs, file) = read file 2;
         header = header\<lparr>lastModTime := store cs (lastModTime header)\<rparr> in
     if failbit file then (ERR_HEADER_LAST_MOD_TIME_READ, file, header, cout) else
     let (cs, file) = read file 2;
         header = header\<lparr>lastModDate := store cs (lastModDate header)\<rparr> in
     if failbit file then (ERR_HEADER_MOD_DATE_READ, file, header, cout) else
     let (cs, file) = read file 4;
         header = header\<lparr>crc32 := store cs (crc32 header)\<rparr> in
     if failbit file then (ERR_HEADER_CRC32_READ, file, header, cout) else
     let (cs, file) = read file 4;
         header = header\<lparr>compressedSize := store cs (compressedSize header)\<rparr> in
     if failbit file then (ERR_HEADER_COMPRESSED_SIZE_READ, file, header, cout) else
     let (cs, file) = read file 4;
         header = header\<lparr>uncompressedSize := store cs (uncompressedSize header)\<rparr> in
     if failbit file then (ERR_HEADER_UNCOMPRESSED_SIZE_READ, file, header, cout) else
     let (cs, file) = read file 2;
         header = header\<lparr>fileNameLength := store cs (fileNameLength header)\<rparr> in
     if failbit file then (ERR_HEADER_FILENAME_LENGTH_READ, file, header, cout) else
     let (cs, file) = read file 2;
         header = header\<lparr>extraFieldLength := store cs (extraFieldLength header)\<rparr> in
     if failbit file then (ERR_HEADER_EXTRA_FIELD_LENGTH_READ, file, header, cout) else
     if signature header \<noteq> PK_SIGNATURE then (ERR_HEADER_SIGNATURE, file, header, cout)
     else (OK, file, header, cout))"

text \<open>
  The file system is the table of the files that can be opened, by path. A path with
  no entry is a file that \<open>std::ifstream\<close> fails to open.
\<close>

type_synonym filesystem = "string \<Rightarrow> byte list option"

text \<open>
  The local \<open>ZipLocalFileHeader header;\<close> of \<open>isValidZipFile\<close> is declared without an
  initialiser. Its fields are read only after a successful full read has written
  them, so the start value never shows; it is all zero here.
\<close>

definition header_uninit :: ZipLocalFileHeader where
  "header_uninit =
     \<lparr>signature = 0, versionNeeded = 0, flags = 0, compressionMethod = 0, lastModTime = 0,
      lastModDate = 0, crc32 = 0, compressedSize = 0, uncompressedSize = 0,
      fileNameLength = 0, extraFieldLength = 0\<rparr>"

text \<open>
  \<open>isValidZipFile\<close>. The seek offset is
  \<open>header.fileNameLength + header.extraFieldLength + header.compressedSize\<close>: the two
  \<open>uint16_t\<close> operands are promoted to \<open>int\<close> and added there (no overflow), and the
  sum is converted to \<open>unsigned int\<close> for the addition of the \<open>uint32_t\<close>, which
  wraps modulo \<open>2 ^ 32\<close>. The unsigned result converts to \<open>streamoff\<close> unchanged.
  The result is the returned pair together with standard output.
\<close>

definition isValidZipFile ::
  "filesystem \<Rightarrow> string \<Rightarrow> string list \<Rightarrow> (ErrorCode \<times> string) \<times> string list" where
  "isValidZipFile fs filePath cout0 =
    (case fs filePath of
       None \<Rightarrow> ((ERR_FILE_OPEN, ''could not open file''), cout0)
     | Some bytes \<Rightarrow>
        (let file = \<lparr>contents = bytes, gpos = 0, failbit = False\<rparr>;
             (cs, file) = read file 4;
             buffer = cs @ drop (length cs) [0, 0, 0, 0] in
         if failbit file then ((ERR_READ_FAIL, ''failed to read from file''), cout0) else
         if \<not> (buffer ! 0 = 0x50 \<and> buffer ! 1 = 0x4B \<and> buffer ! 2 = 0x03 \<and> buffer ! 3 = 0x04)
         then ((ERR_MAGIC_NUMBER, ''incorrect magic number''), cout0) else
         let file = seekg_beg file 0;
             (errorCode, file, header, cout) = readLocalFileHeader file header_uninit cout0 in
         if errorCode \<noteq> OK then ((errorCode, errorCodeToString errorCode), cout) else
         let file = seekg_cur file
                      (uint ((ucast (fileNameLength header) + ucast (extraFieldLength header)
                              + compressedSize header) :: 32 word)) in
         if failbit file then ((ERR_READ_FAIL, ''failed to seek in file''), cout)
         else ((OK, ''the file is a valid ZIP file''), cout)))"

section \<open>The command line\<close>

text \<open>
  \<open>operator<<\<close> on the unscoped enumeration prints its integral value in decimal.
\<close>

fun decimal :: "nat \<Rightarrow> string" where
  "decimal n =
     (if n < 10 then [char_of (48 + n)]
      else decimal (n div 10) @ [char_of (48 + n mod 10)])"

declare decimal.simps [simp del]

definition show_int :: "int \<Rightarrow> string" where
  "show_int i = (if i < 0 then CHR ''-'' # decimal (nat (- i)) else decimal (nat i))"

text \<open>
  \<open>main\<close>: \<open>argv\<close> is the argument vector (\<open>argc\<close> is its length). The result is the
  exit code (the value returned from \<open>main\<close>), standard output and standard error
  as lines, and the global table. With an empty argument vector \<open>argv[0]\<close> is a null
  pointer; the usage line then shows no program name.
\<close>

definition main ::
  "filesystem \<Rightarrow> string list \<Rightarrow> int \<times> string list \<times> string list \<times> 32 word list" where
  "main fs argv =
     (if length argv < 2
      then (errorCodeValue ERR_ARGUMENTS, [],
            [''usage: '' @ (case argv of [] \<Rightarrow> [] | a # _ \<Rightarrow> a) @ '' <zip_file_path>''],
            crc32Table_static)
      else
        let crc32Table = generateCrc32Table crc32Table_static;
            cout = [''procesing '' @ argv ! 1];
            ((result, reason), cout) = isValidZipFile fs (argv ! 1) cout;
            cout = cout @ [reason @ '' '' @ show_int (errorCodeValue result)]
        in (errorCodeValue result, cout, [], crc32Table))"

section \<open>Notions used in the statements\<close>

text \<open>
  The two values of the fixed header that \<open>isValidZipFile\<close> uses after the decode, as
  functions of the bytes of the file: the offset of its final seek and the label it
  prints.
\<close>

definition declaredAdvance :: "byte list \<Rightarrow> 32 word" where
  "declaredAdvance bs =
     ucast (of_le_bytes (take 2 (drop 26 bs)) :: 16 word)
     + ucast (of_le_bytes (take 2 (drop 28 bs)) :: 16 word)
     + of_le_bytes (take 4 (drop 18 bs))"

definition methodLabel :: "byte list \<Rightarrow> string" where
  "methodLabel bs = compressionMethodToString (of_le_bytes (take 2 (drop 8 bs)))"

text \<open>A file system with one file.\<close>

definition single_file :: "string \<Rightarrow> byte list \<Rightarrow> filesystem" where
  "single_file p bs = (\<lambda>q. if q = p then Some bs else None)"

text \<open>
  The minimal local file header: the four magic bytes and 26 zero bytes, so every
  field but the signature is zero.
\<close>

definition minimal_header :: "byte list" where
  "minimal_header =
     [0x50, 0x4B, 0x03, 0x04, 0, 0, 0, 0, 0, 0, 0, 0, 0, 0, 0, 0, 0, 0, 0, 0, 0, 0, 0, 0, 0, 0,
      0, 0, 0, 0]"

text \<open>
  A 30-byte header that declares \<open>compressedSize = 0xFFFFFFFF\<close> (bytes 18 to 21) and
  \<open>fileNameLength = 1\<close> (bytes 26 and 27), with nothing after it.
\<close>

definition oversized_header :: "byte list" where
  "oversized_header =
     [0x50, 0x4B, 0x03, 0x04, 0, 0, 0, 0, 0, 0, 0, 0, 0, 0, 0, 0, 0, 0,
      0xFF, 0xFF, 0xFF, 0xFF, 0, 0, 0, 0, 1, 0, 0, 0]"

text \<open>The bytes of an ASCII text.\<close>

definition ascii_bytes :: "string \<Rightarrow> byte list" where
  "ascii_bytes s = map (\<lambda>c. of_nat (of_char c)) s"

section \<open>The byte source and the decode: basic facts\<close>

lemma store_full:
  "length cs = LENGTH('a) div 8 \<Longrightarrow> store cs (old :: 'a::len word) = of_le_bytes cs"
  by (simp add: store_def le_bytes_def)

lemma read_ok:
  "\<not> failbit f \<Longrightarrow> gpos f + n \<le> length (contents f) \<Longrightarrow>
   read f n = (take n (drop (gpos f) (contents f)), f\<lparr>gpos := gpos f + n\<rparr>)"
  by (simp add: read_def)

lemma seekg_cur_nat:
  "\<not> failbit f \<Longrightarrow>
   failbit (seekg_cur f (int n)) = (length (contents f) < gpos f + n)"
  by (auto simp add: seekg_cur_def)

lemma seekg_cur_uint:
  "\<not> failbit f \<Longrightarrow>
   failbit (seekg_cur f (uint w)) = (length (contents f) < gpos f + unat w)"
  unfolding uint_nat by (rule seekg_cur_nat)

lemma take4_eq:
  "4 \<le> length bs \<Longrightarrow>
   (take 4 bs = [a, b, c, d]) = (bs ! 0 = a \<and> bs ! 1 = b \<and> bs ! 2 = c \<and> bs ! 3 = d)"
  by (auto simp: list_eq_iff_nth_eq less_Suc_eq numeral_eq_Suc)

lemma take4_length: "take 4 bs = [a, b, c, d] \<Longrightarrow> 4 \<le> length bs"
proof -
  assume "take 4 bs = [a, b, c, d]"
  then have "length (take 4 bs) = 4" by simp
  then show ?thesis by simp
qed

lemma magic_signature: "(of_le_bytes [0x50, 0x4B, 0x03, 0x04] :: 32 word) = PK_SIGNATURE"
  by (simp add: of_le_bytes_def PK_SIGNATURE_def)

subsection \<open>\<open>readLocalFileHeader\<close> in closed form\<close>

text \<open>With 30 bytes ahead, all eleven reads succeed and only the signature decides.\<close>

lemma readLocalFileHeader_complete:
  assumes "\<not> failbit f" "gpos f + 30 \<le> length (contents f)"
  shows "readLocalFileHeader f h c =
    (if of_le_bytes (take 4 (drop (gpos f) (contents f))) \<noteq> PK_SIGNATURE
     then ERR_HEADER_SIGNATURE else OK,
     f\<lparr>gpos := gpos f + 30\<rparr>,
     h\<lparr>signature := of_le_bytes (take 4 (drop (gpos f) (contents f))),
       versionNeeded := of_le_bytes (take 2 (drop (gpos f + 4) (contents f))),
       flags := of_le_bytes (take 2 (drop (gpos f + 6) (contents f))),
       compressionMethod := of_le_bytes (take 2 (drop (gpos f + 8) (contents f))),
       lastModTime := of_le_bytes (take 2 (drop (gpos f + 10) (contents f))),
       lastModDate := of_le_bytes (take 2 (drop (gpos f + 12) (contents f))),
       crc32 := of_le_bytes (take 4 (drop (gpos f + 14) (contents f))),
       compressedSize := of_le_bytes (take 4 (drop (gpos f + 18) (contents f))),
       uncompressedSize := of_le_bytes (take 4 (drop (gpos f + 22) (contents f))),
       fileNameLength := of_le_bytes (take 2 (drop (gpos f + 26) (contents f))),
       extraFieldLength := of_le_bytes (take 2 (drop (gpos f + 28) (contents f)))\<rparr>,
     c @ [compressionMethodToString (of_le_bytes (take 2 (drop (gpos f + 8) (contents f))))])"
  using assms
  by (simp add: readLocalFileHeader_def read_ok store_full Let_def add.commute)

text \<open>With fewer, or on a failed stream, one of the eleven reads fails.\<close>

lemma readLocalFileHeader_truncated:
  assumes "failbit f \<or> length (contents f) < gpos f + 30"
  shows "fst (readLocalFileHeader f h c) \<in>
    {ERR_HEADER_SIGNATURE_READ, ERR_HEADER_VERSION_NEEDED_READ, ERR_HEADER_FLAGS_READ,
     ERR_HEADER_COMPRESSION_METHOD_READ, ERR_HEADER_LAST_MOD_TIME_READ,
     ERR_HEADER_MOD_DATE_READ, ERR_HEADER_CRC32_READ, ERR_HEADER_COMPRESSED_SIZE_READ,
     ERR_HEADER_UNCOMPRESSED_SIZE_READ, ERR_HEADER_FILENAME_LENGTH_READ,
     ERR_HEADER_EXTRA_FIELD_LENGTH_READ}"
  using assms
  by (auto simp add: readLocalFileHeader_def read_def Let_def)

text \<open>From the start of a file shorter than 30 bytes: the failing read, by length.\<close>

lemma readLocalFileHeader_start:
  assumes "length bs < 30"
  shows "(case readLocalFileHeader \<lparr>contents = bs, gpos = 0, failbit = False\<rparr> h c of
            (e, f, h', c') \<Rightarrow> (e, c')) =
    (if length bs < 4 then (ERR_HEADER_SIGNATURE_READ, c)
     else if length bs < 6 then (ERR_HEADER_VERSION_NEEDED_READ, c)
     else if length bs < 8 then (ERR_HEADER_FLAGS_READ, c)
     else if length bs < 10 then (ERR_HEADER_COMPRESSION_METHOD_READ, c)
     else if length bs < 12 then (ERR_HEADER_LAST_MOD_TIME_READ, c @ [methodLabel bs])
     else if length bs < 14 then (ERR_HEADER_MOD_DATE_READ, c @ [methodLabel bs])
     else if length bs < 18 then (ERR_HEADER_CRC32_READ, c @ [methodLabel bs])
     else if length bs < 22 then (ERR_HEADER_COMPRESSED_SIZE_READ, c @ [methodLabel bs])
     else if length bs < 26 then (ERR_HEADER_UNCOMPRESSED_SIZE_READ, c @ [methodLabel bs])
     else if length bs < 28 then (ERR_HEADER_FILENAME_LENGTH_READ, c @ [methodLabel bs])
     else (ERR_HEADER_EXTRA_FIELD_LENGTH_READ, c @ [methodLabel bs]))"
  using assms
  by (simp add: readLocalFileHeader_def read_def store_full Let_def methodLabel_def)

text \<open>
  The start value of the header never shows: neither in the code returned, the
  stream and the output, nor in the header that a successful decode leaves.
\<close>

lemma readLocalFileHeader_start_value:
  "(case readLocalFileHeader f h c of (e, f', hdr, c') \<Rightarrow> (e, f', c')) =
   (case readLocalFileHeader f h' c of (e, f', hdr, c') \<Rightarrow> (e, f', c'))"
proof (cases "\<not> failbit f \<and> gpos f + 30 \<le> length (contents f)")
  case True
  then show ?thesis by (simp add: readLocalFileHeader_complete)
next
  case False
  then have "failbit f \<or> length (contents f) < gpos f + 30" by auto
  then show ?thesis
    by (auto simp add: readLocalFileHeader_def read_def Let_def store_full)
qed

lemma readLocalFileHeader_header:
  assumes "\<not> failbit f" "gpos f + 30 \<le> length (contents f)"
  shows "fst (snd (snd (readLocalFileHeader f h c))) =
         fst (snd (snd (readLocalFileHeader f h' c)))"
  using assms by (cases h, cases h') (simp add: readLocalFileHeader_complete)

subsection \<open>\<open>isValidZipFile\<close> in closed form\<close>

lemma isValidZipFile_unopened:
  "fs p = None \<Longrightarrow> isValidZipFile fs p c = ((ERR_FILE_OPEN, ''could not open file''), c)"
  by (simp add: isValidZipFile_def)

lemma isValidZipFile_short:
  "fs p = Some bs \<Longrightarrow> length bs < 4 \<Longrightarrow>
   isValidZipFile fs p c = ((ERR_READ_FAIL, ''failed to read from file''), c)"
  by (simp add: isValidZipFile_def read_def)

lemma isValidZipFile_magic:
  "fs p = Some bs \<Longrightarrow> 4 \<le> length bs \<Longrightarrow> take 4 bs \<noteq> [0x50, 0x4B, 0x03, 0x04] \<Longrightarrow>
   isValidZipFile fs p c = ((ERR_MAGIC_NUMBER, ''incorrect magic number''), c)"
  by (auto simp add: isValidZipFile_def read_def take4_eq)

lemma isValidZipFile_decode:
  assumes "fs p = Some bs" "take 4 bs = [0x50, 0x4B, 0x03, 0x04]"
  shows "isValidZipFile fs p c =
    (case readLocalFileHeader \<lparr>contents = bs, gpos = 0, failbit = False\<rparr> header_uninit c of
       (errorCode, file, header, cout) \<Rightarrow>
         if errorCode \<noteq> OK then ((errorCode, errorCodeToString errorCode), cout)
         else if failbit (seekg_cur file
                      (uint ((ucast (fileNameLength header) + ucast (extraFieldLength header)
                              + compressedSize header) :: 32 word)))
         then ((ERR_READ_FAIL, ''failed to seek in file''), cout)
         else ((OK, ''the file is a valid ZIP file''), cout))"
proof -
  have len: "4 \<le> length bs" using assms(2) by (rule take4_length)
  show ?thesis
    using assms len take4_eq[of bs "0x50" "0x4B" "0x03" "0x04"]
    by (simp add: isValidZipFile_def read_def seekg_beg_def Let_def split: prod.split)
qed

lemma isValidZipFile_complete:
  assumes "fs p = Some bs" "30 \<le> length bs" "take 4 bs = [0x50, 0x4B, 0x03, 0x04]"
  shows "isValidZipFile fs p c =
    (if length bs < 30 + unat (declaredAdvance bs)
     then ((ERR_READ_FAIL, ''failed to seek in file''), c @ [methodLabel bs])
     else ((OK, ''the file is a valid ZIP file''), c @ [methodLabel bs]))"
  using assms(2,3)
  by (simp add: isValidZipFile_decode[of fs p bs c, OF assms(1,3)]
      readLocalFileHeader_complete magic_signature seekg_cur_uint
      declaredAdvance_def methodLabel_def)

lemma isValidZipFile_truncated:
  assumes "fs p = Some bs" "take 4 bs = [0x50, 0x4B, 0x03, 0x04]" "length bs < 30"
  shows "isValidZipFile fs p c =
    (if length bs < 6
     then ((ERR_HEADER_VERSION_NEEDED_READ, ''ERR_HEADER_VERSION_NEEDED_READ''), c)
     else if length bs < 8 then ((ERR_HEADER_FLAGS_READ, ''ERR_HEADER_FLAGS_READ''), c)
     else if length bs < 10
     then ((ERR_HEADER_COMPRESSION_METHOD_READ, ''ERR_HEADER_COMPRESSION_METHOD_READ''), c)
     else if length bs < 12
     then ((ERR_HEADER_LAST_MOD_TIME_READ, ''ERR_HEADER_LAST_MOD_TIME_READ''),
           c @ [methodLabel bs])
     else if length bs < 14
     then ((ERR_HEADER_MOD_DATE_READ, ''ERR_HEADER_MOD_DATE_READ''), c @ [methodLabel bs])
     else if length bs < 18
     then ((ERR_HEADER_CRC32_READ, ''ERR_HEADER_CRC32_READ''), c @ [methodLabel bs])
     else if length bs < 22
     then ((ERR_HEADER_COMPRESSED_SIZE_READ, ''ERR_HEADER_COMPRESSED_SIZE_READ''),
           c @ [methodLabel bs])
     else if length bs < 26
     then ((ERR_HEADER_UNCOMPRESSED_SIZE_READ, ''ERR_HEADER_UNCOMPRESSED_SIZE_READ''),
           c @ [methodLabel bs])
     else if length bs < 28
     then ((ERR_HEADER_FILENAME_LENGTH_READ, ''ERR_HEADER_FILENAME_LENGTH_READ''),
           c @ [methodLabel bs])
     else ((ERR_HEADER_EXTRA_FIELD_LENGTH_READ, ''ERR_HEADER_EXTRA_FIELD_LENGTH_READ''),
           c @ [methodLabel bs]))"
proof -
  have len: "4 \<le> length bs" using assms(2) by (rule take4_length)
  obtain e f h c' where
    r: "readLocalFileHeader \<lparr>contents = bs, gpos = 0, failbit = False\<rparr> header_uninit c
        = (e, f, h, c')"
    by (cases "readLocalFileHeader \<lparr>contents = bs, gpos = 0, failbit = False\<rparr> header_uninit c")
  have ec: "(e, c') =
    (if length bs < 4 then (ERR_HEADER_SIGNATURE_READ, c)
     else if length bs < 6 then (ERR_HEADER_VERSION_NEEDED_READ, c)
     else if length bs < 8 then (ERR_HEADER_FLAGS_READ, c)
     else if length bs < 10 then (ERR_HEADER_COMPRESSION_METHOD_READ, c)
     else if length bs < 12 then (ERR_HEADER_LAST_MOD_TIME_READ, c @ [methodLabel bs])
     else if length bs < 14 then (ERR_HEADER_MOD_DATE_READ, c @ [methodLabel bs])
     else if length bs < 18 then (ERR_HEADER_CRC32_READ, c @ [methodLabel bs])
     else if length bs < 22 then (ERR_HEADER_COMPRESSED_SIZE_READ, c @ [methodLabel bs])
     else if length bs < 26 then (ERR_HEADER_UNCOMPRESSED_SIZE_READ, c @ [methodLabel bs])
     else if length bs < 28 then (ERR_HEADER_FILENAME_LENGTH_READ, c @ [methodLabel bs])
     else (ERR_HEADER_EXTRA_FIELD_LENGTH_READ, c @ [methodLabel bs]))"
    using readLocalFileHeader_start[OF assms(3), of header_uninit c] by (simp add: r)
  have "isValidZipFile fs p c =
        (if e \<noteq> OK then ((e, errorCodeToString e), c')
         else if failbit (seekg_cur f
                      (uint ((ucast (fileNameLength h) + ucast (extraFieldLength h)
                              + compressedSize h) :: 32 word)))
         then ((ERR_READ_FAIL, ''failed to seek in file''), c')
         else ((OK, ''the file is a valid ZIP file''), c'))"
    by (simp add: isValidZipFile_decode[of fs p bs c, OF assms(1,2)] r)
  then show ?thesis
    using ec len by (simp split: if_splits)
qed

subsection \<open>The seek offset when the 32-bit sum does not wrap\<close>

text \<open>
  As long as the three declared lengths add up to less than \<open>2 ^ 32\<close>, the final seek
  of \<open>isValidZipFile\<close> fails exactly when they exceed the bytes after the header.
\<close>

lemma unat_ucast_16_32: "unat (ucast (a :: 16 word) :: 32 word) = unat a"
proof -
  have "unat a < 2 ^ 16" using unsigned_less[of a] by simp
  then have "unat a < 2 ^ 32" by simp
  then have "take_bit 32 (unat a) = unat a" by (simp add: take_bit_nat_eq_self)
  then show ?thesis by (simp add: unsigned_ucast_eq)
qed

lemma declaredAdvance_no_wrap:
  fixes a b :: "16 word" and c :: "32 word"
  assumes "unat a + unat b + unat c < 2 ^ 32"
  shows "unat (ucast a + ucast b + c :: 32 word) = unat a + unat b + unat c"
proof -
  have "unat (ucast a + ucast b :: 32 word) = unat a + unat b"
    using assms by (simp add: unat_word_ariths unat_ucast_16_32)
  then show ?thesis
    using assms by (simp add: unat_word_ariths)
qed

lemma trailer_bounds_check_without_wrap:
  assumes "fs p = Some bs" "30 \<le> length bs" "take 4 bs = [0x50, 0x4B, 0x03, 0x04]"
    and "unat (of_le_bytes (take 2 (drop 26 bs)) :: 16 word)
         + unat (of_le_bytes (take 2 (drop 28 bs)) :: 16 word)
         + unat (of_le_bytes (take 4 (drop 18 bs)) :: 32 word) < 2 ^ 32"
  shows "fst (isValidZipFile fs p c) =
    (if length bs - 30 < unat (of_le_bytes (take 2 (drop 26 bs)) :: 16 word)
                         + unat (of_le_bytes (take 2 (drop 28 bs)) :: 16 word)
                         + unat (of_le_bytes (take 4 (drop 18 bs)) :: 32 word)
     then (ERR_READ_FAIL, ''failed to seek in file'')
     else (OK, ''the file is a valid ZIP file''))"
proof -
  have "unat (declaredAdvance bs) =
        unat (of_le_bytes (take 2 (drop 26 bs)) :: 16 word)
        + unat (of_le_bytes (take 2 (drop 28 bs)) :: 16 word)
        + unat (of_le_bytes (take 4 (drop 18 bs)) :: 32 word)"
    unfolding declaredAdvance_def using assms(4) by (rule declaredAdvance_no_wrap)
  then show ?thesis
    using assms(2)
    by (auto simp add: isValidZipFile_complete[of fs p bs c, OF assms(1,2,3)])
qed


section \<open>The CRC-32 table\<close>

text \<open>
  The loop invariant of \<open>generateCrc32Table\<close>: the entries below \<open>i\<close> are as they
  were on entry, the entries from \<open>i\<close> on are the eight-round remainders.
\<close>

lemma generateCrc32Table_loop_eq:
  "i \<le> 256 \<Longrightarrow> length t = 256 \<Longrightarrow>
   generateCrc32Table_loop i t = take i t @ map (\<lambda>k. crcBits 8 (of_nat k)) [i..<256]"
proof (induction i t rule: generateCrc32Table_loop.induct)
  case (1 i t)
  show ?case
  proof (cases "i < 256")
    case True
    have "generateCrc32Table_loop i t =
          generateCrc32Table_loop (i + 1) (t[i := crcBits 8 (of_nat i)])"
      using True by (subst generateCrc32Table_loop.simps) simp
    also have "\<dots> = take (i + 1) (t[i := crcBits 8 (of_nat i)])
                     @ map (\<lambda>k. crcBits 8 (of_nat k)) [i + 1..<256]"
      using True "1.prems" by (intro "1.IH") simp_all
    also have "take (i + 1) (t[i := crcBits 8 (of_nat i)]) = take i t @ [crcBits 8 (of_nat i)]"
      using True "1.prems" by (simp add: take_Suc_conv_app_nth)
    also have "(take i t @ [crcBits 8 (of_nat i)])
                 @ map (\<lambda>k. crcBits 8 (of_nat k)) [i + 1..<256]
               = take i t @ map (\<lambda>k. crcBits 8 (of_nat k)) [i..<256]"
      using True by (simp add: upt_conv_Cons)
    finally show ?thesis .
  next
    case False
    with "1.prems" have "i = 256" by simp
    then show ?thesis
      using "1.prems" by (subst generateCrc32Table_loop.simps) simp
  qed
qed

lemma generateCrc32Table_eq:
  "length t = 256 \<Longrightarrow> generateCrc32Table t = map (\<lambda>k. crcBits 8 (of_nat k)) [0..<256]"
  by (simp add: generateCrc32Table_def generateCrc32Table_loop_eq)

lemma generateCrc32Table_nth:
  "length t = 256 \<Longrightarrow> i < 256 \<Longrightarrow> generateCrc32Table t ! i = crcBits 8 (of_nat i)"
  by (simp add: generateCrc32Table_eq del: upt_Suc)

text \<open>The table entries that the check string reaches.\<close>

lemma crcBits_1: "crcBits 8 1 = 0x77073096"
  by code_simp

lemma crcBits_25: "crcBits 8 25 = 0x646ba8c0"
  by code_simp

lemma crcBits_88: "crcBits 8 88 = 0x65b0d9c6"
  by code_simp

lemma crcBits_105: "crcBits 8 105 = 0x346ed9fc"
  by code_simp

lemma crcBits_122: "crcBits 8 122 = 0xb0d09822"
  by code_simp

lemma crcBits_169: "crcBits 8 169 = 0xaf0a1b4c"
  by code_simp

lemma crcBits_206: "crcBits 8 206 = 0x7cdcefb7"
  by code_simp

lemma crcBits_213: "crcBits 8 213 = 0xf6b9265b"
  by code_simp

lemmas crcBits_check = crcBits_1 crcBits_25 crcBits_88 crcBits_105 crcBits_122 crcBits_169
  crcBits_206 crcBits_213

text \<open>One round of \<open>computeCrc32\<close> over the generated table, without the table.\<close>

lemma computeCrc32_loop_step:
  assumes "length t = 256"
  shows "computeCrc32_loop (generateCrc32Table t) crc (d # ds) =
         computeCrc32_loop (generateCrc32Table t)
           (crcBits 8 (ucast (ucast ((crc AND 0xff) XOR ucast d) :: byte)) XOR drop_bit 8 crc) ds"
proof -
  have "unat (ucast ((crc AND 0xff) XOR ucast d) :: byte) < 256"
    using unsigned_less[of "ucast ((crc AND 0xff) XOR ucast d) :: byte"] by simp
  then show ?thesis
    using assms by (simp add: generateCrc32Table_nth Let_def)
qed

lemma ascii_bytes_check:
  "ascii_bytes ''123456789'' = [0x31, 0x32, 0x33, 0x34, 0x35, 0x36, 0x37, 0x38, 0x39]"
  by (simp add: ascii_bytes_def)

lemma computeCrc32_check:
  "computeCrc32 (generateCrc32Table crc32Table_static) (ascii_bytes ''123456789'')
   = 0xCBF43926"
proof -
  have len: "length crc32Table_static = 256"
    by (simp add: crc32Table_static_def)
  show ?thesis
    unfolding ascii_bytes_check computeCrc32_def
    by (simp add: computeCrc32_loop_step[OF len] crcBits_check
        del: computeCrc32_loop.simps(2))
qed

section \<open>The claims\<close>

text \<open>
  C1. The trailer bounds check: the spec computes
  \<open>advance = fileNameLength + extraFieldLength + compressedSize\<close> without overflow and
  wants \<open>ERR_READ_FAIL\<close> whenever the declared trailer exceeds the bytes left after
  the fixed header. The code adds in 32 bits. On \<open>oversized_header\<close> the declared
  lengths add up to \<open>2 ^ 32\<close> with no byte left after the header, the 32-bit sum
  is 0, the seek by 0 succeeds and \<open>isValidZipFile\<close> returns \<open>OK\<close>.
\<close>

theorem oversized_trailer_accepted:
  "length oversized_header = 30 \<and>
   (case readLocalFileHeader \<lparr>contents = oversized_header, gpos = 0, failbit = False\<rparr>
           header_uninit [] of
      (e, f, h, c) \<Rightarrow>
        e = OK \<and>
        unat (fileNameLength h) + unat (extraFieldLength h) + unat (compressedSize h) = 2 ^ 32 \<and>
        length (contents f) - gpos f = 0) \<and>
   declaredAdvance oversized_header = 0 \<and>
   isValidZipFile (single_file ''a.zip'' oversized_header) ''a.zip'' []
     = ((OK, ''the file is a valid ZIP file''), [''no compression''])"
proof -
  have len: "length oversized_header = 30"
    by (simp add: oversized_header_def)
  have magic: "take 4 oversized_header = [0x50, 0x4B, 0x03, 0x04]"
    by (simp add: oversized_header_def)
  have fnl: "(of_le_bytes (take 2 (drop 26 oversized_header)) :: 16 word) = 1"
    by (simp add: oversized_header_def of_le_bytes_def)
  have efl: "(of_le_bytes (take 2 (drop 28 oversized_header)) :: 16 word) = 0"
    by (simp add: oversized_header_def of_le_bytes_def)
  have cs: "(of_le_bytes (take 4 (drop 18 oversized_header)) :: 32 word) = 0xFFFFFFFF"
    by (simp add: oversized_header_def of_le_bytes_def)
  have adv: "declaredAdvance oversized_header = 0"
    by (simp add: declaredAdvance_def fnl efl cs)
  have lab: "methodLabel oversized_header = ''no compression''"
    by (simp add: methodLabel_def oversized_header_def of_le_bytes_def
        compressionMethodToString_def)
  have dec: "(case readLocalFileHeader
                  \<lparr>contents = oversized_header, gpos = 0, failbit = False\<rparr> header_uninit [] of
      (e, f, h, c) \<Rightarrow>
        e = OK \<and>
        unat (fileNameLength h) + unat (extraFieldLength h) + unat (compressedSize h) = 2 ^ 32 \<and>
        length (contents f) - gpos f = 0)"
    by (simp add: readLocalFileHeader_complete len)
       (simp add: oversized_header_def of_le_bytes_def PK_SIGNATURE_def)
  have "isValidZipFile (single_file ''a.zip'' oversized_header) ''a.zip'' []
        = ((OK, ''the file is a valid ZIP file''), [''no compression''])"
    by (subst isValidZipFile_complete[where bs = oversized_header])
       (simp_all add: single_file_def len magic adv lab)
  with len dec adv show ?thesis by simp
qed

text \<open>
  C2. For every input that passes the magic pre-check and is shorter than 30 bytes,
  \<open>isValidZipFile\<close> returns the read error of the field at which the bytes run out,
  paired with that error's name; the field is a function of the total length
  alone: 4 or 5 bytes stop at versionNeeded, 6 or 7 at flags, 8 or 9 at
  compressionMethod, 10 or 11 at lastModTime, 12 or 13 at lastModDate, 14 to 17 at
  crc32, 18 to 21 at compressedSize, 22 to 25 at uncompressedSize, 26 or 27 at
  fileNameLength, 28 or 29 at extraFieldLength. In particular an input of 14 bytes
  (10 bytes after the first 4) stops at the crc32 read, not at the compressionMethod
  read.
\<close>

theorem truncated_header_field_error:
  assumes "fs p = Some bs" "take 4 bs = [0x50, 0x4B, 0x03, 0x04]" "length bs < 30"
  shows "fst (fst (isValidZipFile fs p c)) =
           (if length bs < 6 then ERR_HEADER_VERSION_NEEDED_READ
            else if length bs < 8 then ERR_HEADER_FLAGS_READ
            else if length bs < 10 then ERR_HEADER_COMPRESSION_METHOD_READ
            else if length bs < 12 then ERR_HEADER_LAST_MOD_TIME_READ
            else if length bs < 14 then ERR_HEADER_MOD_DATE_READ
            else if length bs < 18 then ERR_HEADER_CRC32_READ
            else if length bs < 22 then ERR_HEADER_COMPRESSED_SIZE_READ
            else if length bs < 26 then ERR_HEADER_UNCOMPRESSED_SIZE_READ
            else if length bs < 28 then ERR_HEADER_FILENAME_LENGTH_READ
            else ERR_HEADER_EXTRA_FIELD_LENGTH_READ) \<and>
         snd (fst (isValidZipFile fs p c)) = errorCodeToString (fst (fst (isValidZipFile fs p c))) \<and>
         (length bs = 14 \<longrightarrow>
            fst (isValidZipFile fs p c) = (ERR_HEADER_CRC32_READ, ''ERR_HEADER_CRC32_READ''))"
  by (simp add: isValidZipFile_truncated[of fs p bs c, OF assms])

theorem truncated_header_field_error_witness:
  "fst (isValidZipFile
          (single_file ''a.zip'' [0x50, 0x4B, 0x03, 0x04, 20, 0, 0, 0, 8, 0, 0, 0, 0, 0])
          ''a.zip'' [])
   = (ERR_HEADER_CRC32_READ, ''ERR_HEADER_CRC32_READ'')"
  using truncated_header_field_error
          [of "single_file ''a.zip'' [0x50, 0x4B, 0x03, 0x04, 20, 0, 0, 0, 8, 0, 0, 0, 0, 0]"
              "''a.zip''" "[0x50, 0x4B, 0x03, 0x04, 20, 0, 0, 0, 8, 0, 0, 0, 0, 0]" "[]"]
  by (simp add: single_file_def)

theorem truncated_14_bytes_counterexample:
  "fst (fst (isValidZipFile
          (single_file ''a.zip'' [0x50, 0x4B, 0x03, 0x04, 20, 0, 0, 0, 8, 0, 0, 0, 0, 0])
          ''a.zip'' []))
   \<noteq> ERR_HEADER_COMPRESSION_METHOD_READ"
proof -
  have "fst (fst (isValidZipFile
          (single_file ''a.zip'' [0x50, 0x4B, 0x03, 0x04, 20, 0, 0, 0, 8, 0, 0, 0, 0, 0])
          ''a.zip'' []))
        = ERR_HEADER_CRC32_READ"
    by (subst isValidZipFile_truncated
          [where bs = "[0x50, 0x4B, 0x03, 0x04, 20, 0, 0, 0, 8, 0, 0, 0, 0, 0]"])
       (simp_all add: single_file_def)
  then show ?thesis by simp
qed

text \<open>
  C3. \<open>readLocalFileHeader\<close> compares the decoded signature with \<open>0x04034b50\<close> only
  after all eleven fields have been read: with 30 bytes ahead on a good stream it
  returns \<open>ERR_HEADER_SIGNATURE\<close> when the signature it left in the header differs
  and \<open>OK\<close> otherwise, and whenever it returns \<open>ERR_HEADER_SIGNATURE\<close> the stream was
  good, had 30 bytes ahead and has advanced by exactly 30. \<open>isValidZipFile\<close> never
  returns \<open>ERR_HEADER_SIGNATURE\<close>: after the magic pre-check the decode reads the
  same four bytes again.
\<close>

theorem signature_check_after_decode:
  "(\<not> failbit f \<and> gpos f + 30 \<le> length (contents f) \<longrightarrow>
      fst (readLocalFileHeader f h c) =
        (if signature (fst (snd (snd (readLocalFileHeader f h c)))) \<noteq> PK_SIGNATURE
         then ERR_HEADER_SIGNATURE else OK)) \<and>
   (fst (readLocalFileHeader f h c) = ERR_HEADER_SIGNATURE \<longrightarrow>
      \<not> failbit f \<and> gpos f + 30 \<le> length (contents f) \<and>
      gpos (fst (snd (readLocalFileHeader f h c))) = gpos f + 30) \<and>
   fst (fst (isValidZipFile fs p c)) \<noteq> ERR_HEADER_SIGNATURE"
proof -
  have a: "fst (readLocalFileHeader f h c) =
        (if signature (fst (snd (snd (readLocalFileHeader f h c)))) \<noteq> PK_SIGNATURE
         then ERR_HEADER_SIGNATURE else OK)"
    if "\<not> failbit f" "gpos f + 30 \<le> length (contents f)"
    using that by (cases h) (simp add: readLocalFileHeader_complete)
  have b: "\<not> failbit f \<and> gpos f + 30 \<le> length (contents f) \<and>
           gpos (fst (snd (readLocalFileHeader f h c))) = gpos f + 30"
    if sig: "fst (readLocalFileHeader f h c) = ERR_HEADER_SIGNATURE"
  proof (cases "failbit f \<or> length (contents f) < gpos f + 30")
    case True
    from readLocalFileHeader_truncated[OF True, of h c] sig show ?thesis by simp
  next
    case False
    then have ok: "\<not> failbit f" "gpos f + 30 \<le> length (contents f)" by auto
    then show ?thesis by (simp add: readLocalFileHeader_complete)
  qed
  have c: "fst (fst (isValidZipFile fs p c)) \<noteq> ERR_HEADER_SIGNATURE"
  proof (cases "fs p")
    case None
    then show ?thesis by (simp add: isValidZipFile_unopened)
  next
    case some: (Some xs)
    show ?thesis
    proof (cases "length xs < 4")
      case True
      then show ?thesis by (simp add: isValidZipFile_short[of fs p xs c, OF some])
    next
      case long: False
      show ?thesis
      proof (cases "take 4 xs = [0x50, 0x4B, 0x03, 0x04]")
        case False
        with long show ?thesis by (simp add: isValidZipFile_magic[of fs p xs c, OF some])
      next
        case magic: True
        show ?thesis
        proof (cases "length xs < 30")
          case True
          then show ?thesis
            by (simp add: isValidZipFile_truncated[of fs p xs c, OF some magic])
        next
          case False
          then show ?thesis
            by (simp add: isValidZipFile_complete[of fs p xs c, OF some _ magic])
        qed
      qed
    qed
  qed
  from a b c show ?thesis by blast
qed

theorem signature_check_after_decode_witness:
  "fst (readLocalFileHeader \<lparr>contents = 0x50 # 0x4B # 0x05 # 0x06 # minimal_header,
                             gpos = 0, failbit = False\<rparr> header_uninit [])
     = ERR_HEADER_SIGNATURE \<and>
   gpos (fst (snd (readLocalFileHeader
                     \<lparr>contents = 0x50 # 0x4B # 0x05 # 0x06 # minimal_header,
                      gpos = 0, failbit = False\<rparr> header_uninit [])))
     = 30"
proof -
  have sg: "signature (fst (snd (snd (readLocalFileHeader
              \<lparr>contents = 0x50 # 0x4B # 0x05 # 0x06 # minimal_header,
               gpos = 0, failbit = False\<rparr> header_uninit [])))) = 0x06054b50"
    by (simp add: readLocalFileHeader_complete minimal_header_def)
       (simp add: of_le_bytes_def)
  show ?thesis
    using signature_check_after_decode
            [of "\<lparr>contents = 0x50 # 0x4B # 0x05 # 0x06 # minimal_header,
                  gpos = 0, failbit = False\<rparr>" header_uninit "[]"]
    by (simp add: sg PK_SIGNATURE_def) (simp add: minimal_header_def)
qed

text \<open>
  C4. The checksum is a function of the bytes alone once the table has been generated:
  whatever the 256-entry array held before, \<open>generateCrc32Table\<close> leaves the same
  table (generating it again changes nothing), so two computations over identical
  bytes give identical results. The checksum of the empty buffer is \<open>0x00000000\<close>,
  and the checksum of the nine ASCII bytes of "123456789" is \<open>0xCBF43926\<close>.
\<close>

theorem crc32_deterministic_and_check_values:
  "(length t = 256 \<and> length t' = 256 \<and> data = data' \<longrightarrow>
      generateCrc32Table t = generateCrc32Table t' \<and>
      generateCrc32Table (generateCrc32Table t) = generateCrc32Table t \<and>
      computeCrc32 (generateCrc32Table t) data = computeCrc32 (generateCrc32Table t') data') \<and>
   computeCrc32 (generateCrc32Table crc32Table_static) [] = 0x00000000 \<and>
   computeCrc32 (generateCrc32Table crc32Table_static) (ascii_bytes ''123456789'')
     = 0xCBF43926"
proof -
  have det: "generateCrc32Table t = generateCrc32Table t'"
    if "length t = 256" "length t' = 256" for t t' :: "32 word list"
    using that by (simp add: generateCrc32Table_eq)
  have idem: "generateCrc32Table (generateCrc32Table t) = generateCrc32Table t"
    if "length t = 256" for t :: "32 word list"
  proof -
    have "length (generateCrc32Table t) = 256"
      using that by (simp add: generateCrc32Table_eq)
    then show ?thesis using that by (rule det)
  qed
  have empty: "computeCrc32 (generateCrc32Table crc32Table_static) [] = 0"
    by (simp add: computeCrc32_def)
  show ?thesis
    using det[of t t'] idem[of t] empty computeCrc32_check by auto
qed

theorem crc32_deterministic_and_check_values_witness:
  "length (replicate 256 (0xDEADBEEF :: 32 word)) = 256 \<and>
   length crc32Table_static = 256 \<and>
   generateCrc32Table (replicate 256 0xDEADBEEF) = generateCrc32Table crc32Table_static \<and>
   computeCrc32 (generateCrc32Table (replicate 256 0xDEADBEEF)) (ascii_bytes ''123456789'')
     = 0xCBF43926"
  using crc32_deterministic_and_check_values
          [of "replicate 256 0xDEADBEEF" crc32Table_static
              "ascii_bytes ''123456789''" "ascii_bytes ''123456789''"]
  by (simp add: crc32Table_static_def)

text \<open>
  C5. For the minimal well-formed input (the 30 bytes of \<open>minimal_header\<close>: the magic
  bytes, every other field zero, nothing after the header) \<open>isValidZipFile\<close> returns
  \<open>OK\<close> with its fixed message "the file is a valid ZIP file". The decode leaves
  the signature \<open>0x04034b50\<close> and zero in every other field.
\<close>

theorem minimal_header_valid:
  "length minimal_header = 30 \<and>
   fst (snd (snd (readLocalFileHeader \<lparr>contents = minimal_header, gpos = 0, failbit = False\<rparr>
                    header_uninit [])))
     = header_uninit\<lparr>signature := 0x04034b50\<rparr> \<and>
   isValidZipFile (single_file ''a.zip'' minimal_header) ''a.zip'' []
     = ((OK, ''the file is a valid ZIP file''), [''no compression''])"
proof -
  have len: "length minimal_header = 30"
    by (simp add: minimal_header_def)
  have hdr: "fst (snd (snd (readLocalFileHeader
                \<lparr>contents = minimal_header, gpos = 0, failbit = False\<rparr> header_uninit [])))
             = header_uninit\<lparr>signature := 0x04034b50\<rparr>"
    by (simp add: readLocalFileHeader_complete len)
       (simp add: minimal_header_def header_uninit_def of_le_bytes_def)
  have adv: "declaredAdvance minimal_header = 0"
    by (simp add: declaredAdvance_def minimal_header_def of_le_bytes_def)
  have lab: "methodLabel minimal_header = ''no compression''"
    by (simp add: methodLabel_def minimal_header_def of_le_bytes_def
        compressionMethodToString_def)
  have "isValidZipFile (single_file ''a.zip'' minimal_header) ''a.zip'' []
        = ((OK, ''the file is a valid ZIP file''), [''no compression''])"
    by (subst isValidZipFile_complete[where bs = minimal_header])
       (simp_all add: single_file_def len adv lab, simp add: minimal_header_def)
  with len hdr show ?thesis by simp
qed

text \<open>
  C6. For every input of at least 4 bytes whose first 4 bytes are not
  \<open>0x50 0x4B 0x03 0x04\<close>, \<open>isValidZipFile\<close> returns \<open>ERR_MAGIC_NUMBER\<close> with the message
  "incorrect magic number" and prints nothing, whatever bytes follow.
\<close>

theorem magic_mismatch:
  assumes "fs p = Some bs" "4 \<le> length bs" "take 4 bs \<noteq> [0x50, 0x4B, 0x03, 0x04]"
  shows "isValidZipFile fs p c = ((ERR_MAGIC_NUMBER, ''incorrect magic number''), c)"
  using assms by (rule isValidZipFile_magic)

theorem magic_mismatch_witness:
  "isValidZipFile (single_file ''setup.exe'' [0x4D, 0x5A, 0x90, 0x00, 0x03, 0x00])
     ''setup.exe'' []
   = ((ERR_MAGIC_NUMBER, ''incorrect magic number''), [])"
  using magic_mismatch
          [of "single_file ''setup.exe'' [0x4D, 0x5A, 0x90, 0x00, 0x03, 0x00]" "''setup.exe''"
              "[0x4D, 0x5A, 0x90, 0x00, 0x03, 0x00]" "[]"]
  by (simp add: single_file_def)

text \<open>
  C7. For every file that can be opened and is shorter than 4 bytes, \<open>isValidZipFile\<close>
  returns \<open>ERR_READ_FAIL\<close> (message "failed to read from file"), not one of the
  header read errors; \<open>ERR_FILE_OPEN\<close> is the outcome exactly when the file cannot be
  opened.
\<close>

theorem short_input_read_failure:
  "(fs p = Some bs \<and> length bs < 4 \<longrightarrow>
      isValidZipFile fs p c = ((ERR_READ_FAIL, ''failed to read from file''), c)) \<and>
   ((fst (fst (isValidZipFile fs p c)) = ERR_FILE_OPEN) = (fs p = None))"
proof -
  have "fst (fst (isValidZipFile fs p c)) \<noteq> ERR_FILE_OPEN" if some: "fs p = Some xs" for xs
  proof (cases "length xs < 4")
    case True
    then show ?thesis by (simp add: isValidZipFile_short[of fs p xs c, OF some])
  next
    case long: False
    show ?thesis
    proof (cases "take 4 xs = [0x50, 0x4B, 0x03, 0x04]")
      case False
      with long show ?thesis by (simp add: isValidZipFile_magic[of fs p xs c, OF some])
    next
      case magic: True
      show ?thesis
      proof (cases "length xs < 30")
        case True
        then show ?thesis by (simp add: isValidZipFile_truncated[of fs p xs c, OF some magic])
      next
        case False
        then show ?thesis by (simp add: isValidZipFile_complete[of fs p xs c, OF some _ magic])
      qed
    qed
  qed
  then show ?thesis
    by (cases "fs p") (auto simp add: isValidZipFile_unopened isValidZipFile_short)
qed

theorem short_input_read_failure_witness:
  "isValidZipFile (single_file ''a.zip'' [0x50, 0x4B, 0x03]) ''a.zip'' []
     = ((ERR_READ_FAIL, ''failed to read from file''), []) \<and>
   fst (fst (isValidZipFile (single_file ''a.zip'' [0x50, 0x4B, 0x03]) ''missing.zip'' []))
     = ERR_FILE_OPEN"
  using short_input_read_failure
          [of "single_file ''a.zip'' [0x50, 0x4B, 0x03]" "''a.zip''" "[0x50, 0x4B, 0x03]" "[]"]
        short_input_read_failure
          [of "single_file ''a.zip'' [0x50, 0x4B, 0x03]" "''missing.zip''" "[]" "[]"]
  by (simp add: single_file_def)

text \<open>
  C8. The eighteen enumerators of \<open>ErrorCode\<close> have the values 0 to 17 in the order
  of their declaration, and the value returned from \<open>main\<close> (the exit code) is the
  value of \<open>ERR_ARGUMENTS\<close> without a path argument and the value of the outcome of
  \<open>isValidZipFile\<close> otherwise; it is 0 exactly when there is a path argument and the
  outcome is \<open>OK\<close>.
\<close>

theorem error_codes_and_exit_code:
  "errorCodeValue OK = 0 \<and>
   errorCodeValue ERR_ARGUMENTS = 1 \<and>
   errorCodeValue ERR_FILE_OPEN = 2 \<and>
   errorCodeValue ERR_MAGIC_NUMBER = 3 \<and>
   errorCodeValue ERR_HEADER_SIGNATURE = 4 \<and>
   errorCodeValue ERR_HEADER_READ = 5 \<and>
   errorCodeValue ERR_HEADER_SIGNATURE_READ = 6 \<and>
   errorCodeValue ERR_HEADER_VERSION_NEEDED_READ = 7 \<and>
   errorCodeValue ERR_HEADER_FLAGS_READ = 8 \<and>
   errorCodeValue ERR_HEADER_COMPRESSION_METHOD_READ = 9 \<and>
   errorCodeValue ERR_HEADER_LAST_MOD_TIME_READ = 10 \<and>
   errorCodeValue ERR_HEADER_MOD_DATE_READ = 11 \<and>
   errorCodeValue ERR_HEADER_CRC32_READ = 12 \<and>
   errorCodeValue ERR_HEADER_COMPRESSED_SIZE_READ = 13 \<and>
   errorCodeValue ERR_HEADER_UNCOMPRESSED_SIZE_READ = 14 \<and>
   errorCodeValue ERR_HEADER_FILENAME_LENGTH_READ = 15 \<and>
   errorCodeValue ERR_HEADER_EXTRA_FIELD_LENGTH_READ = 16 \<and>
   errorCodeValue ERR_READ_FAIL = 17 \<and>
   fst (main fs argv) =
     (if length argv < 2 then errorCodeValue ERR_ARGUMENTS
      else errorCodeValue
             (fst (fst (isValidZipFile fs (argv ! 1) [''procesing '' @ argv ! 1])))) \<and>
   (fst (main fs argv) = 0) =
     (2 \<le> length argv \<and>
      fst (fst (isValidZipFile fs (argv ! 1) [''procesing '' @ argv ! 1])) = OK)"
proof -
  have vals:
    "map errorCodeValue ErrorCode_enumerators
       = [0, 1, 2, 3, 4, 5, 6, 7, 8, 9, 10, 11, 12, 13, 14, 15, 16, 17]"
    by (simp add: errorCodeValue_def ErrorCode_enumerators_def)
  have zero: "(errorCodeValue e = 0) = (e = OK)" for e
    using vals by (cases e) (simp_all add: ErrorCode_enumerators_def)
  have exit_code: "fst (main fs argv) =
     (if length argv < 2 then errorCodeValue ERR_ARGUMENTS
      else errorCodeValue
             (fst (fst (isValidZipFile fs (argv ! 1) [''procesing '' @ argv ! 1]))))"
    by (simp add: main_def Let_def split: prod.split)
  have "(fst (main fs argv) = 0) =
     (2 \<le> length argv \<and>
      fst (fst (isValidZipFile fs (argv ! 1) [''procesing '' @ argv ! 1])) = OK)"
    using vals by (auto simp add: exit_code zero ErrorCode_enumerators_def)
  with exit_code vals show ?thesis
    by (simp add: ErrorCode_enumerators_def)
qed

text \<open>
  C9. The label of the compression method is a lookup that does not touch the
  outcome: method 8 is "deflated", 99 and every value above 19 other than 98 is
  "unknown"; a file and the same file with any other two bytes in the
  compressionMethod field (offsets 8 and 9) get the same outcome and message; and
  the minimal header with method 8 and with method 99 prints the two labels, both
  with outcome \<open>OK\<close>.
\<close>

theorem compression_label_no_effect:
  "compressionMethodToString 8 = ''deflated'' \<and>
   compressionMethodToString 99 = ''unknown'' \<and>
   (19 < m \<and> m \<noteq> 98 \<longrightarrow> compressionMethodToString m = ''unknown'') \<and>
   (fs p = Some bs \<and> fs' p' = Some (bs[8 := a, 9 := b]) \<longrightarrow>
      fst (isValidZipFile fs' p' c') = fst (isValidZipFile fs p c)) \<and>
   isValidZipFile (single_file ''a.zip'' (minimal_header[8 := 8])) ''a.zip'' []
     = ((OK, ''the file is a valid ZIP file''), [''deflated'']) \<and>
   isValidZipFile (single_file ''a.zip'' (minimal_header[8 := 99])) ''a.zip'' []
     = ((OK, ''the file is a valid ZIP file''), [''unknown''])"
proof -
  have l8: "compressionMethodToString 8 = ''deflated''"
    by (simp add: compressionMethodToString_def)
  have l99: "compressionMethodToString 99 = ''unknown''"
    by (simp add: compressionMethodToString_def)
  have unk: "compressionMethodToString m = ''unknown''" if "19 < m" "m \<noteq> 98"
    using that by (auto simp add: compressionMethodToString_def)
  have same: "fst (isValidZipFile fs' p' c') = fst (isValidZipFile fs p c)"
    if some: "fs p = Some bs" and some': "fs' p' = Some (bs[8 := a, 9 := b])"
  proof -
    let ?bs' = "bs[8 := a, 9 := b]"
    have len: "length ?bs' = length bs" by simp
    have t4: "take 4 ?bs' = take 4 bs" by simp
    have adv: "declaredAdvance ?bs' = declaredAdvance bs"
      by (simp add: declaredAdvance_def)
    show ?thesis
    proof (cases "length bs < 4")
      case True
      then show ?thesis
        by (simp add: isValidZipFile_short[of fs p bs c, OF some]
            isValidZipFile_short[of fs' p' ?bs' c', OF some'])
    next
      case long: False
      show ?thesis
      proof (cases "take 4 bs = [0x50, 0x4B, 0x03, 0x04]")
        case False
        with long show ?thesis
          by (simp add: isValidZipFile_magic[of fs p bs c, OF some]
              isValidZipFile_magic[of fs' p' ?bs' c', OF some'])
      next
        case magic: True
        have magic': "take 4 ?bs' = [0x50, 0x4B, 0x03, 0x04]"
          using magic t4 by simp
        show ?thesis
        proof (cases "length bs < 30")
          case True
          then show ?thesis
            by (simp add: isValidZipFile_truncated[of fs p bs c, OF some magic]
                isValidZipFile_truncated[of fs' p' ?bs' c', OF some' magic'])
        next
          case False
          then show ?thesis
            by (simp add: isValidZipFile_complete[of fs p bs c, OF some _ magic]
                isValidZipFile_complete[of fs' p' ?bs' c', OF some' _ magic'] adv)
        qed
      qed
    qed
  qed
  have m8: "isValidZipFile (single_file ''a.zip'' (minimal_header[8 := 8])) ''a.zip'' []
            = ((OK, ''the file is a valid ZIP file''), [''deflated''])"
    by (subst isValidZipFile_complete[where bs = "minimal_header[8 := 8]"])
       (simp_all add: single_file_def minimal_header_def declaredAdvance_def methodLabel_def
          of_le_bytes_def compressionMethodToString_def)
  have m99: "isValidZipFile (single_file ''a.zip'' (minimal_header[8 := 99])) ''a.zip'' []
            = ((OK, ''the file is a valid ZIP file''), [''unknown''])"
    by (subst isValidZipFile_complete[where bs = "minimal_header[8 := 99]"])
       (simp_all add: single_file_def minimal_header_def declaredAdvance_def methodLabel_def
          of_le_bytes_def compressionMethodToString_def)
  from l8 l99 unk same m8 m99 show ?thesis by blast
qed

theorem compression_label_no_effect_witness:
  "(19 :: 16 word) < 0xFFFF \<and> (0xFFFF :: 16 word) \<noteq> 98 \<and>
   compressionMethodToString 0xFFFF = ''unknown'' \<and>
   fst (isValidZipFile (single_file ''b.zip'' (minimal_header[8 := 14, 9 := 0])) ''b.zip'' [])
     = fst (isValidZipFile (single_file ''a.zip'' minimal_header) ''a.zip'' [])"
  using compression_label_no_effect
          [of "0xFFFF" "single_file ''a.zip'' minimal_header" "''a.zip''" minimal_header
              "single_file ''b.zip'' (minimal_header[8 := 14, 9 := 0])" "''b.zip''" 14 0 "[]" "[]"]
  by (simp add: single_file_def)

text \<open>
  C10. Two files that can be opened, have the same length and agree on their first
  30 bytes get the same result from \<open>isValidZipFile\<close>: the same outcome, the same
  message and the same printed label. No byte at offset 30 or beyond is looked at.
\<close>

theorem result_depends_on_prefix_and_length:
  assumes "fs p = Some bs" "fs' p' = Some bs'"
    and "take 30 bs = take 30 bs'" "length bs = length bs'"
  shows "isValidZipFile fs p c = isValidZipFile fs' p' c"
proof -
  have field: "take n (drop k bs) = take n (drop k bs')" if "k + n \<le> 30" for k n
  proof -
    have "take n (drop k (take 30 xs)) = take n (drop k xs)" for xs :: "byte list"
      using that by (simp add: drop_take min_def)
    then show ?thesis using assms(3) by metis
  qed
  have t4: "take 4 bs = take 4 bs'"
    using field[of 0 4] by simp
  have adv: "declaredAdvance bs = declaredAdvance bs'"
    by (simp add: declaredAdvance_def field)
  have lab: "methodLabel bs = methodLabel bs'"
    by (simp add: methodLabel_def field)
  show ?thesis
  proof (cases "length bs < 4")
    case True
    then show ?thesis
      using assms(4)
      by (simp add: isValidZipFile_short[of fs p bs c, OF assms(1)]
          isValidZipFile_short[of fs' p' bs' c, OF assms(2)])
  next
    case long: False
    show ?thesis
    proof (cases "take 4 bs = [0x50, 0x4B, 0x03, 0x04]")
      case False
      with long show ?thesis
        using assms(4) t4
        by (simp add: isValidZipFile_magic[of fs p bs c, OF assms(1)]
            isValidZipFile_magic[of fs' p' bs' c, OF assms(2)])
    next
      case magic: True
      have magic': "take 4 bs' = [0x50, 0x4B, 0x03, 0x04]"
        using magic t4 by simp
      show ?thesis
      proof (cases "length bs < 30")
        case True
        then show ?thesis
          using assms(4)
          by (simp add: isValidZipFile_truncated[of fs p bs c, OF assms(1) magic]
              isValidZipFile_truncated[of fs' p' bs' c, OF assms(2) magic'] lab)
      next
        case False
        then show ?thesis
          using assms(4)
          by (simp add: isValidZipFile_complete[of fs p bs c, OF assms(1) _ magic]
              isValidZipFile_complete[of fs' p' bs' c, OF assms(2) _ magic'] adv lab)
      qed
    qed
  qed
qed

theorem result_depends_on_prefix_and_length_witness:
  "isValidZipFile (single_file ''a.zip'' (minimal_header[26 := 2] @ [0x61, 0x62])) ''a.zip'' []
   = isValidZipFile (single_file ''b.zip'' (minimal_header[26 := 2] @ [0xFF, 0x00])) ''b.zip'' []"
  using result_depends_on_prefix_and_length
          [of "single_file ''a.zip'' (minimal_header[26 := 2] @ [0x61, 0x62])" "''a.zip''"
              "minimal_header[26 := 2] @ [0x61, 0x62]"
              "single_file ''b.zip'' (minimal_header[26 := 2] @ [0xFF, 0x00])" "''b.zip''"
              "minimal_header[26 := 2] @ [0xFF, 0x00]" "[]"]
  by (simp add: single_file_def minimal_header_def)


end
